theory Spec2Isabelle
  imports Main "HOL-Library.Sublist"
begin

section \<open>Values shared by the two programs of \<^verbatim>\<open>main.go\<close>\<close>

text \<open>
  \<^verbatim>\<open>main.go\<close> holds two programs: the server with mutual TLS (lines 1 to 122) and the
  standalone server (lines 123 to 243). Each is embedded from its own text; the names of
  the first carry the suffix \<open>_mtls\<close>, those of the second the suffix \<open>_standalone\<close>.

  A \<^verbatim>\<open>time.Time\<close> is an integer (nanoseconds since the epoch), a \<^verbatim>\<open>time.Duration\<close> is
  a number of nanoseconds. \<^verbatim>\<open>t.Format(layout)\<close> belongs to the Go library; it is a
  parameter \<open>Format\<close> of every function that calls it.
\<close>

type_synonym time = int
type_synonym Duration = int

definition Second :: Duration where
  "Second = 1000000000"

datatype layout = ANSIC | UnixDate | RFC822 | RFC1123 | RFC3339 | RFC3339Nano | Kitchen

text \<open>The status codes of \<^verbatim>\<open>google.golang.org/grpc/codes\<close> and a gRPC status error.\<close>

datatype Code = OK | Canceled | Unknown | InvalidArgument | DeadlineExceeded | NotFound
  | AlreadyExists | PermissionDenied | ResourceExhausted | FailedPrecondition | Aborted
  | OutOfRange | Unimplemented | Internal | Unavailable | DataLoss | Unauthenticated

datatype Status = Status Code string

text \<open>\<^verbatim>\<open>status.Errorf(c, "failed to send time: %v", err)\<close>: the text of \<open>err\<close> is appended.\<close>

definition Errorf :: "Code \<Rightarrow> string \<Rightarrow> string \<Rightarrow> Status" where
  "Errorf c msg err = Status c (msg @ err)"

datatype TimeResponse = TimeResponse (CurrentTime: string)

datatype ServingStatus = UNKNOWN | SERVING | NOT_SERVING | SERVICE_UNKNOWN

section \<open>The transport of one streaming call\<close>

text \<open>
  \<^verbatim>\<open>stream.Send\<close> either writes the message or returns an error. The stream records the
  messages written so far (\<open>sent\<close>) and what the transport will answer to the coming calls
  of \<^verbatim>\<open>Send\<close> (\<open>script\<close>: \<open>None\<close> accepts the message, \<open>Some err\<close> fails with the error text
  \<open>err\<close>; once the script is used up every message is accepted).
\<close>

record stream =
  sent :: "TimeResponse list"
  script :: "string option list"

definition Send :: "stream \<Rightarrow> TimeResponse \<Rightarrow> string option \<times> stream" where
  "Send st m =
     (case script st of
        [] \<Rightarrow> (None, st\<lparr>sent := sent st @ [m]\<rparr>)
      | None # rest \<Rightarrow> (None, st\<lparr>sent := sent st @ [m], script := rest\<rparr>)
      | Some err # rest \<Rightarrow> (Some err, st\<lparr>script := rest\<rparr>))"

text \<open>The answer of the transport to the \<open>k\<close>-th call of \<^verbatim>\<open>Send\<close> from now on (from 0).\<close>

definition send_result :: "stream \<Rightarrow> nat \<Rightarrow> string option" where
  "send_result st k = (if k < length (script st) then script st ! k else None)"

section \<open>The state of the process\<close>

text \<open>
  The package variables \<^verbatim>\<open>mu\<close> and \<^verbatim>\<open>isHealthy\<close> (lines 54 to 57), the health server that
  \<^verbatim>\<open>main\<close> creates and the handler of \<^verbatim>\<open>/toggle-health\<close> captures, the tickers of the Go
  runtime, and the lines written by package \<^verbatim>\<open>log\<close> (without their date prefix).
  \<open>mu\<close> is \<open>True\<close> while the mutex is held. The health server is its status map.
\<close>

record ticker =
  period :: Duration
  running :: bool

record proc =
  mu :: bool
  isHealthy :: bool
  healthServer :: "string \<rightharpoonup> ServingStatus"
  timers :: "ticker list"
  logs :: "string list"

definition log_Println :: "string \<Rightarrow> proc \<Rightarrow> proc" where
  "log_Println msg p = p\<lparr>logs := logs p @ [msg]\<rparr>"

text \<open>
  \<^verbatim>\<open>time.NewTicker(d)\<close> panics when \<open>d\<close> is not positive; otherwise it starts a ticker, whose
  handle is its index in \<open>timers\<close>. \<^verbatim>\<open>Stop\<close> turns the ticker off.
\<close>

definition NewTicker :: "Duration \<Rightarrow> proc \<Rightarrow> string + nat \<times> proc" where
  "NewTicker d p =
     (if d \<le> 0 then Inl ''non-positive interval for NewTicker''
      else Inr (length (timers p), p\<lparr>timers := timers p @ [\<lparr>period = d, running = True\<rparr>]\<rparr>))"

definition Stop :: "nat \<Rightarrow> proc \<Rightarrow> proc" where
  "Stop tk p =
     (if tk < length (timers p)
      then p\<lparr>timers := (timers p)[tk := (timers p ! tk)\<lparr>running := False\<rparr>]\<rparr>
      else p)"

section \<open>\<^verbatim>\<open>StreamTime\<close>, server with mutual TLS (lines 34 to 52)\<close>

text \<open>
  The \<^verbatim>\<open>select\<close> of line 40 waits for the context of the stream and for the ticker. An
  \<open>event\<close> is the case that the \<^verbatim>\<open>select\<close> takes: \<open>CtxDone\<close> is line 41, \<open>Tick t\<close> is line 44
  with the time \<open>t\<close> received from \<^verbatim>\<open>ticker.C\<close>. A call of \<^verbatim>\<open>StreamTime\<close> is run against the
  list of the cases its \<^verbatim>\<open>select\<close> takes. When the list is used up the call has not
  returned: it waits at the \<^verbatim>\<open>select\<close> (\<open>Blocked\<close>). \<open>Returned None\<close> is the return of
  \<^verbatim>\<open>nil\<close>, \<open>Returned (Some s)\<close> the return of the status error \<open>s\<close>.
\<close>

datatype event = CtxDone | Tick time

datatype flow = Continue | Return "Status option"

datatype outcome = Blocked | Returned "Status option" | Panicked string

text \<open>One pass through the body of the \<^verbatim>\<open>for\<close> loop (lines 40 to 50).\<close>

fun select_mtls ::
  "(layout \<Rightarrow> time \<Rightarrow> string) \<Rightarrow> event \<Rightarrow> proc \<times> stream \<Rightarrow> flow \<times> proc \<times> stream" where
  "select_mtls Format CtxDone (p, st) =
     (Return None, log_Println ''Client disconnected'' p, st)"
| "select_mtls Format (Tick t) (p, st) =
     (case Send st (TimeResponse (Format RFC3339 t)) of
        (Some err, st') \<Rightarrow>
          (Return (Some (Errorf Internal ''failed to send time: '' err)),
           log_Println (''Error sending time: '' @ err) p, st')
      | (None, st') \<Rightarrow>
          (Continue, log_Println (''Sent time: '' @ Format RFC3339 t) p, st'))"

text \<open>
  The loop of lines 39 to 51. The deferred \<^verbatim>\<open>ticker.Stop()\<close> of line 37 runs when the
  function returns.
\<close>

fun loop_mtls ::
  "(layout \<Rightarrow> time \<Rightarrow> string) \<Rightarrow> nat \<Rightarrow> event list \<Rightarrow> proc \<times> stream
     \<Rightarrow> outcome \<times> proc \<times> stream" where
  "loop_mtls Format tk [] s = (Blocked, s)"
| "loop_mtls Format tk (e # es) s =
     (case select_mtls Format e s of
        (Continue, s') \<Rightarrow> loop_mtls Format tk es s'
      | (Return r, p', st') \<Rightarrow> (Returned r, Stop tk p', st'))"

text \<open>The request message is empty and never read; it is left out.\<close>

definition StreamTime_mtls ::
  "(layout \<Rightarrow> time \<Rightarrow> string) \<Rightarrow> event list \<Rightarrow> proc \<Rightarrow> stream \<Rightarrow> outcome \<times> proc \<times> stream" where
  "StreamTime_mtls Format es p st =
     (let p1 = log_Println ''StreamTime request received'' p in
      case NewTicker (2 * Second) p1 of
        Inl msg \<Rightarrow> (Panicked msg, p1, st)
      | Inr (tk, p2) \<Rightarrow> loop_mtls Format tk es (p2, st))"

section \<open>\<^verbatim>\<open>StreamTime\<close>, standalone server (lines 156 to 174)\<close>

fun select_standalone ::
  "(layout \<Rightarrow> time \<Rightarrow> string) \<Rightarrow> event \<Rightarrow> proc \<times> stream \<Rightarrow> flow \<times> proc \<times> stream" where
  "select_standalone Format CtxDone (p, st) =
     (Return None, log_Println ''Client disconnected'' p, st)"
| "select_standalone Format (Tick t) (p, st) =
     (case Send st (TimeResponse (Format RFC3339 t)) of
        (Some err, st') \<Rightarrow>
          (Return (Some (Errorf Internal ''failed to send time: '' err)),
           log_Println (''Error sending time: '' @ err) p, st')
      | (None, st') \<Rightarrow>
          (Continue, log_Println (''Sent time: '' @ Format RFC3339 t) p, st'))"

fun loop_standalone ::
  "(layout \<Rightarrow> time \<Rightarrow> string) \<Rightarrow> nat \<Rightarrow> event list \<Rightarrow> proc \<times> stream
     \<Rightarrow> outcome \<times> proc \<times> stream" where
  "loop_standalone Format tk [] s = (Blocked, s)"
| "loop_standalone Format tk (e # es) s =
     (case select_standalone Format e s of
        (Continue, s') \<Rightarrow> loop_standalone Format tk es s'
      | (Return r, p', st') \<Rightarrow> (Returned r, Stop tk p', st'))"

definition StreamTime_standalone ::
  "(layout \<Rightarrow> time \<Rightarrow> string) \<Rightarrow> event list \<Rightarrow> proc \<Rightarrow> stream \<Rightarrow> outcome \<times> proc \<times> stream" where
  "StreamTime_standalone Format es p st =
     (let p1 = log_Println ''StreamTime request received'' p in
      case NewTicker (1 * Second) p1 of
        Inl msg \<Rightarrow> (Panicked msg, p1, st)
      | Inr (tk, p2) \<Rightarrow> loop_standalone Format tk es (p2, st))"

section \<open>The health server and the handler of \<^verbatim>\<open>/toggle-health\<close> (lines 102 to 116)\<close>

text \<open>
  Of the health server of \<^verbatim>\<open>google.golang.org/grpc/health\<close> the program uses
  \<^verbatim>\<open>SetServingStatus\<close>, which stores the status of a service, and, through the registered
  health service, \<^verbatim>\<open>Check\<close>, which answers with the stored status of the service asked for
  or with the status error \<^verbatim>\<open>NotFound\<close>. The program never shuts the health server down.
\<close>

definition SetServingStatus :: "string \<Rightarrow> ServingStatus \<Rightarrow> proc \<Rightarrow> proc" where
  "SetServingStatus service s p = p\<lparr>healthServer := (healthServer p)(service \<mapsto> s)\<rparr>"

definition Check :: "proc \<Rightarrow> string \<Rightarrow> Status + ServingStatus" where
  "Check p service =
     (case healthServer p service of
        Some s \<Rightarrow> Inr s
      | None \<Rightarrow> Inl (Status NotFound ''unknown service''))"

text \<open>
  The handler answers one request: it returns the body written to the response and the
  new state. \<^verbatim>\<open>mu.Lock()\<close> waits while the mutex is held; a request that finds it held does
  not get past line 103, which is the result \<open>None\<close>. The deferred \<^verbatim>\<open>mu.Unlock()\<close> runs when
  the handler returns.
\<close>

definition toggle_health_mtls :: "proc \<Rightarrow> (string \<times> proc) option" where
  "toggle_health_mtls p =
     (if mu p then None
      else
        let p1 = p\<lparr>mu := True\<rparr>;
            p2 = p1\<lparr>isHealthy := \<not> isHealthy p1\<rparr>;
            (statusString, p3) =
              (if isHealthy p2
               then (''HEALTHY'', SetServingStatus '''' SERVING p2)
               else (''UNHEALTHY'', SetServingStatus '''' NOT_SERVING p2));
            p4 = log_Println (''Health status toggled to: '' @ statusString) p3;
            body = ''Health status is now '' @ statusString @ [CHR 0x0A]
        in Some (body, p4\<lparr>mu := False\<rparr>))"

text \<open>\<open>n\<close> requests to \<^verbatim>\<open>/toggle-health\<close>, served one after the other.\<close>

fun toggle_requests_mtls :: "nat \<Rightarrow> proc \<Rightarrow> proc option" where
  "toggle_requests_mtls 0 p = Some p"
| "toggle_requests_mtls (Suc n) p =
     (case toggle_health_mtls p of
        None \<Rightarrow> None
      | Some (body, p') \<Rightarrow> toggle_requests_mtls n p')"

section \<open>\<^verbatim>\<open>main\<close>, server with mutual TLS (lines 59 to 122)\<close>

text \<open>
  What the operating system and the libraries answer at startup. A sum holds the error
  text on the left. \<open>pem_certificates\<close> gives the certificates that can be parsed from the
  bytes of a file. \<open>Serve\<close> and \<open>ListenAndServe\<close> are \<open>None\<close> when the server keeps serving
  and \<open>Some err\<close> when the call returns the error \<open>err\<close>. \<open>NewServer\<close> is the status map of a
  fresh health server.
\<close>

record startup =
  LoadX509KeyPair :: "string + string"
  ReadFile :: "string + string"
  pem_certificates :: "string \<Rightarrow> string list"
  Listen :: "string + string"
  NewServer :: "string \<rightharpoonup> ServingStatus"
  Serve :: "string option"
  ListenAndServe :: "string option"

datatype ClientAuthType = NoClientCert | RequestClientCert | RequireAnyClientCert
  | VerifyClientCertIfGiven | RequireAndVerifyClientCert

record tlsConfig =
  Certificates :: "string list"
  ClientCAs :: "string list"
  ClientAuth :: ClientAuthType

text \<open>
  \<^verbatim>\<open>AppendCertsFromPEM\<close> adds the certificates found in the data to the pool and reports
  whether it found any.
\<close>

definition AppendCertsFromPEM ::
  "(string \<Rightarrow> string list) \<Rightarrow> string list \<Rightarrow> string \<Rightarrow> string list \<times> bool" where
  "AppendCertsFromPEM parse pool pemCerts = (pool @ parse pemCerts, parse pemCerts \<noteq> [])"

text \<open>
  \<^verbatim>\<open>log.Fatalf\<close> writes the message and ends the process: \<open>Fatal\<close>. Otherwise the process
  serves with the TLS configuration and the state that \<^verbatim>\<open>main\<close> has set up: \<open>Serving\<close>.
  Line 71 drops the result of \<^verbatim>\<open>AppendCertsFromPEM\<close>. Registering the services with the gRPC
  server (lines 86 to 91) changes nothing of this state. The gRPC server runs in a goroutine
  of its own (lines 94 to 99); its line in the log is put before the one of line 118, and
  when both servers fail the message is the one of line 120.
\<close>

datatype run = Fatal string | Serving tlsConfig proc

definition main_mtls :: "startup \<Rightarrow> run" where
  "main_mtls env =
     (case LoadX509KeyPair env of
        Inl err \<Rightarrow> Fatal (''failed to load server cert: '' @ err)
      | Inr serverCert \<Rightarrow>
     (case ReadFile env of
        Inl err \<Rightarrow> Fatal (''failed to read ca cert: '' @ err)
      | Inr caCert \<Rightarrow>
        let caCertPool = fst (AppendCertsFromPEM (pem_certificates env) [] caCert);
            tlsConfig = \<lparr>Certificates = [serverCert], ClientCAs = caCertPool,
                         ClientAuth = RequireAndVerifyClientCert\<rparr>
        in
     (case Listen env of
        Inl err \<Rightarrow> Fatal (''failed to listen: '' @ err)
      | Inr lis \<Rightarrow>
        let p0 = \<lparr>mu = False, isHealthy = True, healthServer = NewServer env,
                   timers = [], logs = []\<rparr>;
            p1 = SetServingStatus '''' SERVING p0;
            p2 = log_Println (''gRPC server with mTLS listening at '' @ lis) p1;
            p3 = log_Println ''Health toggle server listening at :8081'' p2
        in
     (case ListenAndServe env of
        Some err \<Rightarrow> Fatal (''failed to start HTTP server: '' @ err)
      | None \<Rightarrow>
     (case Serve env of
        Some err \<Rightarrow> Fatal (''failed to serve: '' @ err)
      | None \<Rightarrow> Serving tlsConfig p3)))))"

section \<open>One streaming call among requests to \<^verbatim>\<open>/toggle-health\<close>\<close>

text \<open>
  The process runs every streaming call and every HTTP request in a goroutine of its
  own. Here one call of \<^verbatim>\<open>StreamTime\<close> runs while the HTTP server answers requests to
  \<^verbatim>\<open>/toggle-health\<close>: a schedule lists, in the order in which they happen, the requests
  answered (\<open>ToggleHealth\<close>) and the cases taken by the \<^verbatim>\<open>select\<close> of the call
  (\<open>Select e\<close>). A request that finds \<^verbatim>\<open>mu\<close> held changes nothing. After the call has
  returned, the requests left in the schedule are still answered.
\<close>

datatype action = ToggleHealth | Select event

definition serve_toggle_mtls :: "proc \<Rightarrow> proc" where
  "serve_toggle_mtls p = (case toggle_health_mtls p of None \<Rightarrow> p | Some (body, p') \<Rightarrow> p')"

fun selects :: "action list \<Rightarrow> event list" where
  "selects [] = []"
| "selects (ToggleHealth # as) = selects as"
| "selects (Select e # as) = e # selects as"

fun toggles_left_mtls :: "action list \<Rightarrow> proc \<Rightarrow> proc" where
  "toggles_left_mtls [] p = p"
| "toggles_left_mtls (ToggleHealth # as) p = toggles_left_mtls as (serve_toggle_mtls p)"
| "toggles_left_mtls (Select e # as) p = toggles_left_mtls as p"

fun interleaved_loop_mtls ::
  "(layout \<Rightarrow> time \<Rightarrow> string) \<Rightarrow> nat \<Rightarrow> action list \<Rightarrow> proc \<times> stream
     \<Rightarrow> outcome \<times> proc \<times> stream" where
  "interleaved_loop_mtls Format tk [] s = (Blocked, s)"
| "interleaved_loop_mtls Format tk (ToggleHealth # as) (p, st) =
     interleaved_loop_mtls Format tk as (serve_toggle_mtls p, st)"
| "interleaved_loop_mtls Format tk (Select e # as) s =
     (case select_mtls Format e s of
        (Continue, s') \<Rightarrow> interleaved_loop_mtls Format tk as s'
      | (Return r, p', st') \<Rightarrow> (Returned r, toggles_left_mtls as (Stop tk p'), st'))"

definition interleaved_StreamTime_mtls ::
  "(layout \<Rightarrow> time \<Rightarrow> string) \<Rightarrow> action list \<Rightarrow> proc \<Rightarrow> stream \<Rightarrow> outcome \<times> proc \<times> stream" where
  "interleaved_StreamTime_mtls Format as p st =
     (let p1 = log_Println ''StreamTime request received'' p in
      case NewTicker (2 * Second) p1 of
        Inl msg \<Rightarrow> (Panicked msg, toggles_left_mtls as p1, st)
      | Inr (tk, p2) \<Rightarrow> interleaved_loop_mtls Format tk as (p2, st))"

section \<open>What a list of events holds\<close>

text \<open>The times of the ticks among the cases taken, in the order in which they are taken.\<close>

fun ticks :: "event list \<Rightarrow> time list" where
  "ticks [] = []"
| "ticks (CtxDone # es) = ticks es"
| "ticks (Tick t # es) = t # ticks es"

section \<open>Properties of the transport\<close>

lemma Send_ok:
  "Send st m = (None, st') \<Longrightarrow>
     sent st' = sent st @ [m] \<and> send_result st 0 = None \<and> (\<forall>k. send_result st (Suc k) = send_result st' k)"
  by (auto simp: Send_def send_result_def split: list.splits option.splits)

lemma Send_fail:
  "Send st m = (Some err, st') \<Longrightarrow> sent st' = sent st \<and> send_result st 0 = Some err"
  by (auto simp: Send_def send_result_def split: list.splits option.splits)

section \<open>The loop of \<^verbatim>\<open>StreamTime\<close>\<close>

lemma all_less_Suc: "(\<forall>k<Suc n. P k) \<longleftrightarrow> P 0 \<and> (\<forall>k<n. P (Suc k))"
  by (auto simp: less_Suc_eq_0_disj)

lemma loop_mtls_exits:
  "(case fst (loop_mtls F tk es (p, st)) of
      Blocked \<Rightarrow> CtxDone \<notin> set es \<and> (\<forall>k<length es. send_result st k = None)
    | Returned None \<Rightarrow>
        (\<exists>ts rest. es = map Tick ts @ CtxDone # rest \<and> (\<forall>k<length ts. send_result st k = None))
    | Returned (Some s) \<Rightarrow>
        (\<exists>ts t rest err. es = map Tick ts @ Tick t # rest
           \<and> (\<forall>k<length ts. send_result st k = None)
           \<and> send_result st (length ts) = Some err
           \<and> s = Status Internal (''failed to send time: '' @ err))
    | Panicked m \<Rightarrow> False)"
proof (induction es arbitrary: p st)
  case Nil
  show ?case by simp
next
  case (Cons e es)
  show ?case
  proof (cases e)
    case CtxDone
    show ?thesis unfolding CtxDone
      by (simp, rule exI [of _ "[]"]) simp
  next
    case (Tick t)
    obtain r st' where snd: "Send st (TimeResponse (F RFC3339 t)) = (r, st')"
      by (cases "Send st (TimeResponse (F RFC3339 t))")
    show ?thesis
    proof (cases r)
      case None
      note ok = Send_ok [OF snd [unfolded None]]
      let ?p' = "log_Println (''Sent time: '' @ F RFC3339 t) p"
      have step: "loop_mtls F tk (e # es) (p, st) = loop_mtls F tk es (?p', st')"
        by (simp add: Tick snd None)
      note IH = Cons.IH [where p = ?p' and st = st']
      show ?thesis
      proof (cases "fst (loop_mtls F tk es (?p', st'))")
        case Blocked
        with IH ok show ?thesis unfolding step
          by (simp add: Tick all_less_Suc)
      next
        case (Returned ro)
        show ?thesis
        proof (cases ro)
          case None
          with IH Returned obtain ts rest where
            "es = map Tick ts @ CtxDone # rest" "\<forall>k<length ts. send_result st' k = None"
            by auto
          with ok have "e # es = map Tick (t # ts) @ CtxDone # rest
              \<and> (\<forall>k<length (t # ts). send_result st k = None)"
            by (simp add: Tick all_less_Suc)
          then have "\<exists>ts' rest'. e # es = map Tick ts' @ CtxDone # rest'
              \<and> (\<forall>k<length ts'. send_result st k = None)"
            by blast
          then show ?thesis unfolding step Returned None by simp
        next
          case (Some s)
          with IH Returned obtain ts t' rest err where
            "es = map Tick ts @ Tick t' # rest" "\<forall>k<length ts. send_result st' k = None"
            "send_result st' (length ts) = Some err" "s = Status Internal (''failed to send time: '' @ err)"
            by auto
          with ok have "e # es = map Tick (t # ts) @ Tick t' # rest
              \<and> (\<forall>k<length (t # ts). send_result st k = None)
              \<and> send_result st (length (t # ts)) = Some err
              \<and> s = Status Internal (''failed to send time: '' @ err)"
            by (simp add: Tick all_less_Suc)
          then have "\<exists>ts' t' rest' err. e # es = map Tick ts' @ Tick t' # rest'
              \<and> (\<forall>k<length ts'. send_result st k = None)
              \<and> send_result st (length ts') = Some err
              \<and> s = Status Internal (''failed to send time: '' @ err)"
            by blast
          then show ?thesis unfolding step Returned Some by simp
        qed
      next
        case (Panicked m)
        with IH show ?thesis by simp
      qed
    next
      case (Some err)
      note bad = Send_fail [OF snd [unfolded Some]]
      have stp: "loop_mtls F tk (e # es) (p, st)
          = (Returned (Some (Status Internal (''failed to send time: '' @ err))),
             Stop tk (log_Println (''Error sending time: '' @ err) p), st')"
        by (simp add: Tick snd Some Errorf_def)
      from bad have "e # es = map Tick [] @ Tick t # es
          \<and> (\<forall>k<length ([]::time list). send_result st k = None)
          \<and> send_result st (length ([]::time list)) = Some err"
        by (simp add: Tick)
      then have "\<exists>ts' t' rest' err'. e # es = map Tick ts' @ Tick t' # rest'
              \<and> (\<forall>k<length ts'. send_result st k = None)
              \<and> send_result st (length ts') = Some err'
              \<and> Status Internal (''failed to send time: '' @ err)
                    = Status Internal (''failed to send time: '' @ err')"
        by blast
      then show ?thesis unfolding stp by simp
    qed
  qed
qed


section \<open>Exits of \<^verbatim>\<open>StreamTime\<close>\<close>

lemma NewTicker_2: "NewTicker (2 * Second) p
   = Inr (length (timers p), p\<lparr>timers := timers p @ [\<lparr>period = 2 * Second, running = True\<rparr>]\<rparr>)"
  by (simp add: NewTicker_def Second_def)

text \<open>
  C1. A call of \<^verbatim>\<open>StreamTime\<close> ends in one of two ways and in no other. It returns \<^verbatim>\<open>nil\<close>
  exactly when its \<^verbatim>\<open>select\<close> takes the case of the done context, every send before having
  succeeded. It returns the status error with code \<^verbatim>\<open>Internal\<close> and the message
  \<^verbatim>\<open>failed to send time: \<close> followed by the error text exactly when a send fails, every send
  before having succeeded. Until one of the two happens it waits at the \<^verbatim>\<open>select\<close>, and it
  never panics.
\<close>

theorem StreamTime_mtls_exits:
  "(case fst (StreamTime_mtls Format es p st) of
      Blocked \<Rightarrow> CtxDone \<notin> set es \<and> (\<forall>k<length es. send_result st k = None)
    | Returned None \<Rightarrow>
        (\<exists>ts rest. es = map Tick ts @ CtxDone # rest \<and> (\<forall>k<length ts. send_result st k = None))
    | Returned (Some s) \<Rightarrow>
        (\<exists>ts t rest err. es = map Tick ts @ Tick t # rest
           \<and> (\<forall>k<length ts. send_result st k = None)
           \<and> send_result st (length ts) = Some err
           \<and> s = Status Internal (''failed to send time: '' @ err))
    | Panicked m \<Rightarrow> False)"
  unfolding StreamTime_mtls_def Let_def NewTicker_2
  by (simp only: sum.case prod.case) (rule loop_mtls_exits)

theorem StreamTime_mtls_exits_witness:
  "fst (StreamTime_mtls (\<lambda>l t. ''tick'') [Tick 1, Tick 3]
          \<lparr>mu = False, isHealthy = True, healthServer = Map.empty, timers = [], logs = []\<rparr>
          \<lparr>sent = [], script = [None, Some ''broken pipe'']\<rparr>)
     = Returned (Some (Status Internal ''failed to send time: broken pipe''))
   \<and> (\<exists>ts t rest err. [Tick 1, Tick 3] = map Tick ts @ Tick t # rest
           \<and> (\<forall>k<length ts. send_result \<lparr>sent = [], script = [None, Some ''broken pipe'']\<rparr> k = None)
           \<and> send_result \<lparr>sent = [], script = [None, Some ''broken pipe'']\<rparr> (length ts) = Some err
           \<and> Status Internal ''failed to send time: broken pipe''
               = Status Internal (''failed to send time: '' @ err))"
proof -
  let ?p = "\<lparr>mu = False, isHealthy = True, healthServer = Map.empty, timers = [], logs = []\<rparr>"
  let ?st = "\<lparr>sent = [], script = [None, Some ''broken pipe'']\<rparr>"
  have run: "fst (StreamTime_mtls (\<lambda>l t. ''tick'') [Tick 1, Tick 3] ?p ?st)
      = Returned (Some (Status Internal ''failed to send time: broken pipe''))"
    by (simp add: StreamTime_mtls_def NewTicker_def Second_def log_Println_def Send_def Errorf_def)
  show ?thesis
    using StreamTime_mtls_exits [where Format = "\<lambda>l t. ''tick''" and es = "[Tick 1, Tick 3]"
        and p = ?p and st = ?st]
    unfolding run by simp
qed

section \<open>The ticker of a call\<close>

lemma timers_log_Println: "timers (log_Println m p) = timers p"
  by (simp add: log_Println_def)

lemma select_mtls_timers:
  "select_mtls F e (p, st) = (fl, p', st') \<Longrightarrow> timers p' = timers p"
  by (cases e) (auto simp: timers_log_Println split: prod.splits option.splits)

lemma loop_mtls_timers:
  "loop_mtls F tk es (p, st) = (out, p', st') \<Longrightarrow>
     timers p' = (if out = Blocked then timers p else timers (Stop tk p))"
proof (induction es arbitrary: p st)
  case Nil
  then show ?case by simp
next
  case (Cons e es)
  obtain fl q st1 where sel: "select_mtls F e (p, st) = (fl, q, st1)"
    by (cases "select_mtls F e (p, st)")
  note tq = select_mtls_timers [OF sel]
  show ?case
  proof (cases fl)
    case Continue
    with Cons.prems sel have "loop_mtls F tk es (q, st1) = (out, p', st')" by simp
    from Cons.IH [OF this] tq show ?thesis by (simp add: Stop_def)
  next
    case (Return r)
    with Cons.prems sel have "out = Returned r" "p' = Stop tk q" by simp_all
    with tq show ?thesis by (simp add: Stop_def)
  qed
qed

text \<open>
  C3. A call of \<^verbatim>\<open>StreamTime\<close> starts one ticker and no other: at every moment of the call the
  tickers of the process are those from before the call and the one of the call, which
  has the period of two seconds. That ticker runs as long as the call waits at its
  \<^verbatim>\<open>select\<close> and is stopped once the call has returned, by the return of \<^verbatim>\<open>nil\<close> and by the
  return of the status error alike. So the call never adds more than one running ticker.
\<close>

theorem StreamTime_mtls_ticker:
  "timers (fst (snd (StreamTime_mtls Format es p st)))
     = timers p @ [\<lparr>period = 2 * Second, running = (fst (StreamTime_mtls Format es p st) = Blocked)\<rparr>]
   \<and> length (filter running (timers (fst (snd (StreamTime_mtls Format es p st)))))
     \<le> length (filter running (timers p)) + 1"
proof -
  let ?p1 = "log_Println ''StreamTime request received'' p"
  let ?p2 = "?p1\<lparr>timers := timers ?p1 @ [\<lparr>period = 2 * Second, running = True\<rparr>]\<rparr>"
  let ?tk = "length (timers ?p1)"
  obtain out p' st' where run: "loop_mtls Format ?tk es (?p2, st) = (out, p', st')"
    by (cases "loop_mtls Format ?tk es (?p2, st)")
  have whole: "StreamTime_mtls Format es p st = (out, p', st')"
    by (simp add: StreamTime_mtls_def Let_def NewTicker_2 run)
  have "timers p' = timers p @ [\<lparr>period = 2 * Second, running = (out = Blocked)\<rparr>]"
    using loop_mtls_timers [OF run] by (simp add: Stop_def timers_log_Println)
  then show ?thesis unfolding whole by simp
qed

section \<open>The events written by a call\<close>

lemma ticks_map_Tick: "ticks (map Tick ts @ rest) = ts @ ticks rest"
  by (induction ts) simp_all

lemma loop_mtls_sent:
  "loop_mtls F tk es (p, st) = (out, p', st') \<Longrightarrow>
     \<exists>ts rest. es = map Tick ts @ rest
       \<and> sent st' = sent st @ map (\<lambda>t. TimeResponse (F RFC3339 t)) ts
       \<and> (out = Blocked \<longrightarrow> rest = [])"
proof (induction es arbitrary: p st)
  case Nil
  then show ?case by simp
next
  case (Cons e es)
  show ?case
  proof (cases e)
    case CtxDone
    with Cons.prems have "st' = st" "out \<noteq> Blocked" by auto
    then have "e # es = map Tick [] @ e # es
        \<and> sent st' = sent st @ map (\<lambda>t. TimeResponse (F RFC3339 t)) []
        \<and> (out = Blocked \<longrightarrow> e # es = [])"
      by simp
    then show ?thesis by blast
  next
    case (Tick t)
    obtain r st1 where snd: "Send st (TimeResponse (F RFC3339 t)) = (r, st1)"
      by (cases "Send st (TimeResponse (F RFC3339 t))")
    show ?thesis
    proof (cases r)
      case None
      note ok = Send_ok [OF snd [unfolded None]]
      from Cons.prems have "loop_mtls F tk es (log_Println (''Sent time: '' @ F RFC3339 t) p, st1)
          = (out, p', st')"
        by (simp add: Tick snd None)
      from Cons.IH [OF this] obtain ts rest where
        "es = map Tick ts @ rest"
        "sent st' = sent st1 @ map (\<lambda>t. TimeResponse (F RFC3339 t)) ts"
        "out = Blocked \<longrightarrow> rest = []"
        by blast
      with ok have "e # es = map Tick (t # ts) @ rest
          \<and> sent st' = sent st @ map (\<lambda>t. TimeResponse (F RFC3339 t)) (t # ts)
          \<and> (out = Blocked \<longrightarrow> rest = [])"
        by (simp add: Tick)
      then show ?thesis by blast
    next
      case (Some err)
      note bad = Send_fail [OF snd [unfolded Some]]
      from Cons.prems have "st' = st1" "out \<noteq> Blocked"
        by (auto simp: Tick snd Some)
      with bad have "e # es = map Tick [] @ e # es
          \<and> sent st' = sent st @ map (\<lambda>t. TimeResponse (F RFC3339 t)) []
          \<and> (out = Blocked \<longrightarrow> e # es = [])"
        by simp
      then show ?thesis by blast
    qed
  qed
qed

lemma loop_mtls_returned:
  "fst (loop_mtls F tk es s) \<noteq> Blocked \<Longrightarrow> loop_mtls F tk (es @ later) s = loop_mtls F tk es s"
proof (induction es arbitrary: s)
  case Nil
  then show ?case by simp
next
  case (Cons e es)
  obtain fl s1 where sel: "select_mtls F e s = (fl, s1)"
    by (cases "select_mtls F e s")
  show ?case
  proof (cases fl)
    case Continue
    with Cons.prems sel have "fst (loop_mtls F tk es s1) \<noteq> Blocked" by simp
    from Cons.IH [OF this] show ?thesis by (simp add: sel Continue)
  next
    case (Return r)
    then show ?thesis by (simp add: sel split: prod.splits)
  qed
qed

text \<open>
  C4. The events written by a call of \<^verbatim>\<open>StreamTime\<close> are the formatted times of the ticks
  its \<^verbatim>\<open>select\<close> has taken, one event for each tick and in the order of the ticks, up to
  the case that ended the call. As long as the call waits at its \<^verbatim>\<open>select\<close> every case taken
  was a tick and each of them has its event. When the times of the ticks increase
  strictly, so do the times of the events written. Once the call has returned, whatever
  happens later changes neither its result nor the events written.
\<close>

theorem StreamTime_mtls_events:
  "\<exists>ts rest. es = map Tick ts @ rest
     \<and> sent (snd (snd (StreamTime_mtls Format es p st)))
         = sent st @ map (\<lambda>t. TimeResponse (Format RFC3339 t)) ts
     \<and> (fst (StreamTime_mtls Format es p st) = Blocked \<longrightarrow> rest = [])
     \<and> (sorted_wrt (<) (ticks es) \<longrightarrow> sorted_wrt (<) ts)
     \<and> (fst (StreamTime_mtls Format es p st) \<noteq> Blocked \<longrightarrow>
          (\<forall>later. StreamTime_mtls Format (es @ later) p st = StreamTime_mtls Format es p st))"
proof -
  let ?p1 = "log_Println ''StreamTime request received'' p"
  let ?p2 = "?p1\<lparr>timers := timers ?p1 @ [\<lparr>period = 2 * Second, running = True\<rparr>]\<rparr>"
  let ?tk = "length (timers ?p1)"
  have whole: "StreamTime_mtls Format xs p st = loop_mtls Format ?tk xs (?p2, st)" for xs
    by (simp add: StreamTime_mtls_def Let_def NewTicker_2)
  obtain out p' st' where run: "loop_mtls Format ?tk es (?p2, st) = (out, p', st')"
    by (cases "loop_mtls Format ?tk es (?p2, st)")
  from loop_mtls_sent [OF run] obtain ts rest where
    es: "es = map Tick ts @ rest"
    and snt: "sent st' = sent st @ map (\<lambda>t. TimeResponse (Format RFC3339 t)) ts"
    and blk: "out = Blocked \<longrightarrow> rest = []"
    by blast
  have srt: "sorted_wrt (<) (ticks es) \<longrightarrow> sorted_wrt (<) ts"
    by (simp add: es ticks_map_Tick sorted_wrt_append)
  have fin: "out \<noteq> Blocked \<longrightarrow>
      (\<forall>later. loop_mtls Format ?tk (es @ later) (?p2, st) = loop_mtls Format ?tk es (?p2, st))"
    using loop_mtls_returned [of Format ?tk es "(?p2, st)"] by (simp add: run)
  from es snt blk srt fin show ?thesis
    unfolding whole run by (intro exI [of _ ts] exI [of _ rest]) simp
qed

theorem StreamTime_mtls_events_witness:
  "fst (StreamTime_mtls (\<lambda>l t. if t = 1 then ''one'' else ''two'') [Tick 1, Tick 2]
         \<lparr>mu = False, isHealthy = True, healthServer = Map.empty, timers = [], logs = []\<rparr>
         \<lparr>sent = [], script = []\<rparr>) = Blocked
   \<and> sorted_wrt (<) (ticks [Tick 1, Tick 2])
   \<and> (\<exists>ts rest. [Tick 1, Tick 2] = map Tick ts @ rest
         \<and> sent (snd (snd (StreamTime_mtls (\<lambda>l t. if t = 1 then ''one'' else ''two'') [Tick 1, Tick 2]
               \<lparr>mu = False, isHealthy = True, healthServer = Map.empty, timers = [], logs = []\<rparr>
               \<lparr>sent = [], script = []\<rparr>)))
             = sent \<lparr>sent = [], script = []\<rparr>
               @ map (\<lambda>t. TimeResponse ((\<lambda>l t. if t = 1 then ''one'' else ''two'') RFC3339 t)) ts
         \<and> rest = [] \<and> sorted_wrt (<) ts)
   \<and> fst (StreamTime_mtls (\<lambda>l t. ''now'') [Tick 1, CtxDone]
         \<lparr>mu = False, isHealthy = True, healthServer = Map.empty, timers = [], logs = []\<rparr>
         \<lparr>sent = [], script = []\<rparr>) \<noteq> Blocked
   \<and> StreamTime_mtls (\<lambda>l t. ''now'') ([Tick 1, CtxDone] @ [Tick 2])
         \<lparr>mu = False, isHealthy = True, healthServer = Map.empty, timers = [], logs = []\<rparr>
         \<lparr>sent = [], script = []\<rparr>
     = StreamTime_mtls (\<lambda>l t. ''now'') [Tick 1, CtxDone]
         \<lparr>mu = False, isHealthy = True, healthServer = Map.empty, timers = [], logs = []\<rparr>
         \<lparr>sent = [], script = []\<rparr>"
proof -
  let ?F = "\<lambda>(l::layout) (t::time). if t = 1 then ''one'' else ''two''"
  let ?G = "\<lambda>(l::layout) (t::time). ''now''"
  let ?p = "\<lparr>mu = False, isHealthy = True, healthServer = Map.empty, timers = [], logs = []\<rparr>"
  let ?st = "\<lparr>sent = [], script = []\<rparr>"
  have blocked: "fst (StreamTime_mtls ?F [Tick 1, Tick 2] ?p ?st) = Blocked"
    by (simp add: StreamTime_mtls_def NewTicker_def Second_def log_Println_def Send_def)
  have sorted: "sorted_wrt (<) (ticks [Tick 1, Tick 2])"
    by simp
  have returned: "fst (StreamTime_mtls ?G [Tick 1, CtxDone] ?p ?st) \<noteq> Blocked"
    by (simp add: StreamTime_mtls_def NewTicker_def Second_def log_Println_def Send_def)
  from StreamTime_mtls_events [where Format = ?F and es = "[Tick 1, Tick 2]" and p = ?p and st = ?st]
    blocked sorted
  have running: "\<exists>ts rest. [Tick 1, Tick 2] = map Tick ts @ rest
         \<and> sent (snd (snd (StreamTime_mtls ?F [Tick 1, Tick 2] ?p ?st)))
             = sent ?st @ map (\<lambda>t. TimeResponse (?F RFC3339 t)) ts
         \<and> rest = [] \<and> sorted_wrt (<) ts"
    by blast
  from StreamTime_mtls_events [where Format = ?G and es = "[Tick 1, CtxDone]" and p = ?p and st = ?st]
    returned
  have silent: "StreamTime_mtls ?G ([Tick 1, CtxDone] @ [Tick 2]) ?p ?st
      = StreamTime_mtls ?G [Tick 1, CtxDone] ?p ?st"
    by blast
  from blocked sorted running returned silent show ?thesis
    by (intro conjI)
qed

section \<open>The two variants of \<^verbatim>\<open>StreamTime\<close>\<close>

lemma select_standalone_mtls: "select_standalone F e s = select_mtls F e s"
  by (cases e; cases s) simp_all

lemma loop_standalone_mtls: "loop_standalone F tk es s = loop_mtls F tk es s"
  by (induction es arbitrary: s) (simp_all add: select_standalone_mtls split: prod.splits flow.splits)

lemma NewTicker_1: "NewTicker (1 * Second) p
   = Inr (length (timers p), p\<lparr>timers := timers p @ [\<lparr>period = 1 * Second, running = True\<rparr>]\<rparr>)"
  by (simp add: NewTicker_def Second_def)

lemma select_mtls_frame:
  "select_mtls F e (p, st) = (fl, q, st') \<Longrightarrow>
   select_mtls F e (p\<lparr>timers := ts\<rparr>, st) = (fl, q\<lparr>timers := ts\<rparr>, st')"
  by (cases e) (auto simp: log_Println_def split: prod.splits option.splits)

lemma loop_mtls_frame:
  "loop_mtls F tk es (p, st) = (out, q, st') \<Longrightarrow>
   \<exists>q'. loop_mtls F tk es (p\<lparr>timers := ts\<rparr>, st) = (out, q', st')
     \<and> mu q' = mu q \<and> isHealthy q' = isHealthy q \<and> healthServer q' = healthServer q \<and> logs q' = logs q"
proof (induction es arbitrary: p st)
  case Nil
  then show ?case by auto
next
  case (Cons e es)
  obtain fl p1 st1 where sel: "select_mtls F e (p, st) = (fl, p1, st1)"
    by (cases "select_mtls F e (p, st)")
  note sel' = select_mtls_frame [OF sel, of ts]
  show ?case
  proof (cases fl)
    case Continue
    with Cons.prems sel have "loop_mtls F tk es (p1, st1) = (out, q, st')" by simp
    from Cons.IH [OF this] show ?thesis by (simp add: sel' Continue)
  next
    case (Return r)
    with Cons.prems sel have "out = Returned r" "q = Stop tk p1" "st' = st1" by simp_all
    then show ?thesis by (simp add: sel' Return Stop_def)
  qed
qed

text \<open>
  C10. Run against the same cases taken by the \<^verbatim>\<open>select\<close>, from the same state and on the
  same stream, \<^verbatim>\<open>StreamTime\<close> of the standalone server and \<^verbatim>\<open>StreamTime\<close> of the server with
  mutual TLS have the same result (still waiting, \<^verbatim>\<open>nil\<close>, or the same status error), leave
  the same stream (the same events written, formatted with \<^verbatim>\<open>time.RFC3339\<close>) and the same
  log, and leave their tickers in the same state. They differ in the period of the
  ticker: two seconds with mutual TLS, one second standalone.
\<close>

theorem StreamTime_variants_agree:
  "fst (StreamTime_standalone Format es p st) = fst (StreamTime_mtls Format es p st)
   \<and> snd (snd (StreamTime_standalone Format es p st)) = snd (snd (StreamTime_mtls Format es p st))
   \<and> logs (fst (snd (StreamTime_standalone Format es p st)))
       = logs (fst (snd (StreamTime_mtls Format es p st)))
   \<and> isHealthy (fst (snd (StreamTime_standalone Format es p st)))
       = isHealthy (fst (snd (StreamTime_mtls Format es p st)))
   \<and> healthServer (fst (snd (StreamTime_standalone Format es p st)))
       = healthServer (fst (snd (StreamTime_mtls Format es p st)))
   \<and> map running (timers (fst (snd (StreamTime_standalone Format es p st))))
       = map running (timers (fst (snd (StreamTime_mtls Format es p st))))
   \<and> period (last (timers (fst (snd (StreamTime_mtls Format es p st))))) = 2 * Second
   \<and> period (last (timers (fst (snd (StreamTime_standalone Format es p st))))) = 1 * Second"
proof -
  let ?p1 = "log_Println ''StreamTime request received'' p"
  let ?tk = "length (timers ?p1)"
  let ?m = "?p1\<lparr>timers := timers ?p1 @ [\<lparr>period = 2 * Second, running = True\<rparr>]\<rparr>"
  let ?s = "?p1\<lparr>timers := timers ?p1 @ [\<lparr>period = 1 * Second, running = True\<rparr>]\<rparr>"
  have m: "StreamTime_mtls Format es p st = loop_mtls Format ?tk es (?m, st)"
    by (simp add: StreamTime_mtls_def Let_def NewTicker_2)
  have s: "StreamTime_standalone Format es p st = loop_mtls Format ?tk es (?s, st)"
    unfolding StreamTime_standalone_def Let_def NewTicker_1
    by (simp add: loop_standalone_mtls)
  obtain out q st' where run: "loop_mtls Format ?tk es (?m, st) = (out, q, st')"
    by (cases "loop_mtls Format ?tk es (?m, st)")
  from loop_mtls_frame [OF run, of "timers ?p1 @ [\<lparr>period = 1 * Second, running = True\<rparr>]"]
  obtain q' where run': "loop_mtls Format ?tk es (?s, st) = (out, q', st')"
    and lg: "logs q' = logs q" "isHealthy q' = isHealthy q" "healthServer q' = healthServer q"
    by auto
  have tm: "timers q = timers p @ [\<lparr>period = 2 * Second, running = (out = Blocked)\<rparr>]"
    using loop_mtls_timers [OF run] by (simp add: Stop_def timers_log_Println)
  have ts: "timers q' = timers p @ [\<lparr>period = 1 * Second, running = (out = Blocked)\<rparr>]"
    using loop_mtls_timers [OF run'] by (simp add: Stop_def timers_log_Println)
  show ?thesis unfolding m s run run' by (simp add: lg tm ts)
qed

section \<open>A call and the health state\<close>

lemma serve_toggle_mtls_timers: "timers (serve_toggle_mtls p) = timers p"
  by (simp add: serve_toggle_mtls_def toggle_health_mtls_def Let_def SetServingStatus_def
      log_Println_def)

lemma serve_toggle_mtls_register:
  "mu p = mu q \<Longrightarrow> isHealthy p = isHealthy q \<Longrightarrow> healthServer p = healthServer q \<Longrightarrow>
   mu (serve_toggle_mtls p) = mu (serve_toggle_mtls q)
   \<and> isHealthy (serve_toggle_mtls p) = isHealthy (serve_toggle_mtls q)
   \<and> healthServer (serve_toggle_mtls p) = healthServer (serve_toggle_mtls q)"
  by (simp add: serve_toggle_mtls_def toggle_health_mtls_def Let_def SetServingStatus_def
      log_Println_def)

lemma toggles_left_mtls_timers: "timers (toggles_left_mtls as p) = timers p"
  by (induction as p rule: toggles_left_mtls.induct) (simp_all add: serve_toggle_mtls_timers)

lemma toggles_left_mtls_register:
  "mu p = mu q \<Longrightarrow> isHealthy p = isHealthy q \<Longrightarrow> healthServer p = healthServer q \<Longrightarrow>
   mu (toggles_left_mtls as p) = mu (toggles_left_mtls as q)
   \<and> isHealthy (toggles_left_mtls as p) = isHealthy (toggles_left_mtls as q)
   \<and> healthServer (toggles_left_mtls as p) = healthServer (toggles_left_mtls as q)"
proof (induction as p arbitrary: q rule: toggles_left_mtls.induct)
  case (1 p)
  then show ?case by simp
next
  case (2 as p)
  from serve_toggle_mtls_register [OF "2.prems"] "2.IH" [of "serve_toggle_mtls q"]
  show ?case by simp
next
  case (3 e as p)
  then show ?case by simp
qed

lemma select_mtls_proc:
  "select_mtls F e (p, st) = (fl, p', st') \<Longrightarrow>
     mu p' = mu p \<and> isHealthy p' = isHealthy p \<and> healthServer p' = healthServer p
     \<and> timers p' = timers p"
  by (cases e) (auto simp: log_Println_def split: prod.splits option.splits)

lemma select_mtls_any_proc:
  "select_mtls F e (p, st) = (fl, p', st') \<Longrightarrow>
     \<exists>q'. select_mtls F e (q, st) = (fl, q', st')"
  by (cases e) (auto split: prod.splits option.splits)

lemma interleaved_loop_mtls_view:
  "timers p = timers q \<Longrightarrow>
   interleaved_loop_mtls F tk as (p, st) = (o1, p1, st1) \<Longrightarrow>
   loop_mtls F tk (selects as) (q, st) = (o2, q2, st2) \<Longrightarrow>
   o1 = o2 \<and> st1 = st2 \<and> timers p1 = timers q2"
proof (induction as arbitrary: p q st)
  case Nil
  then show ?case by simp
next
  case (Cons a as)
  show ?case
  proof (cases a)
    case ToggleHealth
    with Cons.prems have
      "timers (serve_toggle_mtls p) = timers q"
      "interleaved_loop_mtls F tk as (serve_toggle_mtls p, st) = (o1, p1, st1)"
      "loop_mtls F tk (selects as) (q, st) = (o2, q2, st2)"
      by (simp_all add: serve_toggle_mtls_timers)
    then show ?thesis by (rule Cons.IH)
  next
    case (Select e)
    obtain fl p' st' where selp: "select_mtls F e (p, st) = (fl, p', st')"
      by (cases "select_mtls F e (p, st)")
    from select_mtls_any_proc [OF selp] obtain q' where
      selq: "select_mtls F e (q, st) = (fl, q', st')"
      by blast
    from select_mtls_proc [OF selp] select_mtls_proc [OF selq] Cons.prems(1)
    have tm: "timers p' = timers q'" by simp
    show ?thesis
    proof (cases fl)
      case Continue
      with Cons.prems selp selq Select have
        "interleaved_loop_mtls F tk as (p', st') = (o1, p1, st1)"
        "loop_mtls F tk (selects as) (q', st') = (o2, q2, st2)"
        by simp_all
      with tm show ?thesis by (rule Cons.IH)
    next
      case (Return r)
      with Cons.prems selp selq Select have
        "o1 = Returned r" "p1 = toggles_left_mtls as (Stop tk p')" "st1 = st'"
        "o2 = Returned r" "q2 = Stop tk q'" "st2 = st'"
        by simp_all
      with tm show ?thesis by (simp add: toggles_left_mtls_timers Stop_def)
    qed
  qed
qed

lemma loop_mtls_any_proc:
  "timers p = timers q \<Longrightarrow>
   loop_mtls F tk es (p, st) = (o1, p1, st1) \<Longrightarrow>
   loop_mtls F tk es (q, st) = (o2, q2, st2) \<Longrightarrow>
   o1 = o2 \<and> st1 = st2 \<and> timers p1 = timers q2"
proof (induction es arbitrary: p q st)
  case Nil
  then show ?case by simp
next
  case (Cons e es)
  obtain fl p' st' where selp: "select_mtls F e (p, st) = (fl, p', st')"
    by (cases "select_mtls F e (p, st)")
  from select_mtls_any_proc [OF selp] obtain q' where
    selq: "select_mtls F e (q, st) = (fl, q', st')"
    by blast
  from select_mtls_proc [OF selp] select_mtls_proc [OF selq] Cons.prems(1)
  have tm: "timers p' = timers q'" by simp
  show ?case
  proof (cases fl)
    case Continue
    with Cons.prems selp selq have
      "loop_mtls F tk es (p', st') = (o1, p1, st1)"
      "loop_mtls F tk es (q', st') = (o2, q2, st2)"
      by simp_all
    with tm show ?thesis by (rule Cons.IH)
  next
    case (Return r)
    with Cons.prems selp selq have
      "o1 = Returned r" "p1 = Stop tk p'" "st1 = st'"
      "o2 = Returned r" "q2 = Stop tk q'" "st2 = st'"
      by simp_all
    with tm show ?thesis by (simp add: Stop_def)
  qed
qed

lemma Stop_register:
  "mu (Stop tk p) = mu p \<and> isHealthy (Stop tk p) = isHealthy p
   \<and> healthServer (Stop tk p) = healthServer p"
  by (simp add: Stop_def)

lemma interleaved_loop_mtls_register:
  "interleaved_loop_mtls F tk as (p, st) = (out, p1, st1) \<Longrightarrow>
   mu p1 = mu (toggles_left_mtls as p)
   \<and> isHealthy p1 = isHealthy (toggles_left_mtls as p)
   \<and> healthServer p1 = healthServer (toggles_left_mtls as p)"
proof (induction as arbitrary: p st)
  case Nil
  then show ?case by simp
next
  case (Cons a as)
  show ?case
  proof (cases a)
    case ToggleHealth
    with Cons.prems have
      "interleaved_loop_mtls F tk as (serve_toggle_mtls p, st) = (out, p1, st1)"
      by simp
    from Cons.IH [OF this] show ?thesis by (simp add: ToggleHealth)
  next
    case (Select e)
    obtain fl p' st' where selp: "select_mtls F e (p, st) = (fl, p', st')"
      by (cases "select_mtls F e (p, st)")
    note same = select_mtls_proc [OF selp]
    show ?thesis
    proof (cases fl)
      case Continue
      with Cons.prems selp Select have
        "interleaved_loop_mtls F tk as (p', st') = (out, p1, st1)"
        by simp
      from Cons.IH [OF this] toggles_left_mtls_register [of p' p as] same
      show ?thesis by (simp add: Select)
    next
      case (Return r)
      with Cons.prems selp Select have "p1 = toggles_left_mtls as (Stop tk p')"
        by simp
      with toggles_left_mtls_register [of "Stop tk p'" p as] same Stop_register [of tk p']
      show ?thesis by (simp add: Select)
    qed
  qed
qed

text \<open>
  C6. A call of \<^verbatim>\<open>StreamTime\<close> does not depend on the health state. With requests to
  \<^verbatim>\<open>/toggle-health\<close> answered at any moments of the call, in any number, the call has the
  result, the stream (the events written) and the tickers that it has without them: no
  request ends the call and none changes an event. The health state is then the one that
  the requests alone produce. And started in a state that differs in \<^verbatim>\<open>mu\<close>, in
  \<^verbatim>\<open>isHealthy\<close> and in the health server, the call has the same result and the same stream.
\<close>

theorem StreamTime_mtls_unaffected_by_toggles:
  "fst (interleaved_StreamTime_mtls Format as p st) = fst (StreamTime_mtls Format (selects as) p st)
   \<and> snd (snd (interleaved_StreamTime_mtls Format as p st))
       = snd (snd (StreamTime_mtls Format (selects as) p st))
   \<and> timers (fst (snd (interleaved_StreamTime_mtls Format as p st)))
       = timers (fst (snd (StreamTime_mtls Format (selects as) p st)))
   \<and> isHealthy (fst (snd (interleaved_StreamTime_mtls Format as p st)))
       = isHealthy (toggles_left_mtls as p)
   \<and> healthServer (fst (snd (interleaved_StreamTime_mtls Format as p st)))
       = healthServer (toggles_left_mtls as p)
   \<and> fst (StreamTime_mtls Format es (p\<lparr>mu := m, isHealthy := b, healthServer := h\<rparr>) st)
       = fst (StreamTime_mtls Format es p st)
   \<and> snd (snd (StreamTime_mtls Format es (p\<lparr>mu := m, isHealthy := b, healthServer := h\<rparr>) st))
       = snd (snd (StreamTime_mtls Format es p st))"
proof -
  let ?p1 = "log_Println ''StreamTime request received'' p"
  let ?tk = "length (timers ?p1)"
  let ?p2 = "?p1\<lparr>timers := timers ?p1 @ [\<lparr>period = 2 * Second, running = True\<rparr>]\<rparr>"
  have i: "interleaved_StreamTime_mtls Format as p st = interleaved_loop_mtls Format ?tk as (?p2, st)"
    by (simp add: interleaved_StreamTime_mtls_def Let_def NewTicker_2)
  have m: "StreamTime_mtls Format (selects as) p st = loop_mtls Format ?tk (selects as) (?p2, st)"
    by (simp add: StreamTime_mtls_def Let_def NewTicker_2)
  obtain o1 p1 st1 where r1: "interleaved_loop_mtls Format ?tk as (?p2, st) = (o1, p1, st1)"
    by (cases "interleaved_loop_mtls Format ?tk as (?p2, st)")
  obtain o2 q2 st2 where r2: "loop_mtls Format ?tk (selects as) (?p2, st) = (o2, q2, st2)"
    by (cases "loop_mtls Format ?tk (selects as) (?p2, st)")
  have view: "o1 = o2 \<and> st1 = st2 \<and> timers p1 = timers q2"
    using interleaved_loop_mtls_view [OF refl r1 r2] .
  have reg: "isHealthy p1 = isHealthy (toggles_left_mtls as p)
      \<and> healthServer p1 = healthServer (toggles_left_mtls as p)"
    using interleaved_loop_mtls_register [OF r1] toggles_left_mtls_register [of ?p2 p as]
    by (simp add: log_Println_def)
  let ?q = "p\<lparr>mu := m, isHealthy := b, healthServer := h\<rparr>"
  let ?q1 = "log_Println ''StreamTime request received'' ?q"
  let ?q2 = "?q1\<lparr>timers := timers ?q1 @ [\<lparr>period = 2 * Second, running = True\<rparr>]\<rparr>"
  have tq: "timers ?q2 = timers ?p2" "length (timers ?q1) = ?tk"
    by (simp_all add: log_Println_def)
  have n: "StreamTime_mtls Format es p st = loop_mtls Format ?tk es (?p2, st)"
    by (simp add: StreamTime_mtls_def Let_def NewTicker_2)
  have n': "StreamTime_mtls Format es ?q st = loop_mtls Format ?tk es (?q2, st)"
    unfolding StreamTime_mtls_def Let_def NewTicker_2 tq(2) by simp
  obtain o3 p3 st3 where r3: "loop_mtls Format ?tk es (?p2, st) = (o3, p3, st3)"
    by (cases "loop_mtls Format ?tk es (?p2, st)")
  obtain o4 p4 st4 where r4: "loop_mtls Format ?tk es (?q2, st) = (o4, p4, st4)"
    by (cases "loop_mtls Format ?tk es (?q2, st)")
  have blind: "o4 = o3 \<and> st4 = st3"
    using loop_mtls_any_proc [OF tq(1) r4 r3] by simp
  show ?thesis unfolding i m r1 r2 n n' r3 r4 using view reg blind by simp
qed

section \<open>Requests to \<^verbatim>\<open>/toggle-health\<close>\<close>

lemma toggle_health_mtls_free:
  "\<not> mu p \<Longrightarrow>
   toggle_health_mtls p =
     Some (''Health status is now '' @ (if isHealthy p then ''UNHEALTHY'' else ''HEALTHY'') @ [CHR 0x0A],
           p\<lparr>isHealthy := \<not> isHealthy p,
             healthServer := (healthServer p)('''' \<mapsto> (if isHealthy p then NOT_SERVING else SERVING)),
             logs := logs p @ [''Health status toggled to: ''
                               @ (if isHealthy p then ''UNHEALTHY'' else ''HEALTHY'')]\<rparr>)"
  by (simp add: toggle_health_mtls_def Let_def SetServingStatus_def log_Println_def)

lemma toggle_requests_mtls_parity:
  "\<not> mu p \<Longrightarrow>
   \<exists>p'. toggle_requests_mtls n p = Some p' \<and> \<not> mu p'
     \<and> isHealthy p' = (if even n then isHealthy p else \<not> isHealthy p)
     \<and> healthServer p' '''' =
          (if n = 0 then healthServer p ''''
           else Some (if isHealthy p' then SERVING else NOT_SERVING))"
proof (induction n arbitrary: p)
  case 0
  then show ?case by simp
next
  case (Suc n)
  let ?q = "p\<lparr>isHealthy := \<not> isHealthy p,
             healthServer := (healthServer p)('''' \<mapsto> (if isHealthy p then NOT_SERVING else SERVING)),
             logs := logs p @ [''Health status toggled to: ''
                               @ (if isHealthy p then ''UNHEALTHY'' else ''HEALTHY'')]\<rparr>"
  from Suc.prems have free: "\<not> mu ?q" by simp
  from Suc.IH [OF free] obtain p' where
    run: "toggle_requests_mtls n ?q = Some p'" and mu': "\<not> mu p'"
    and h: "isHealthy p' = (if even n then isHealthy ?q else \<not> isHealthy ?q)"
    and s: "healthServer p' '''' =
          (if n = 0 then healthServer ?q ''''
           else Some (if isHealthy p' then SERVING else NOT_SERVING))"
    by blast
  have "toggle_requests_mtls (Suc n) p = toggle_requests_mtls n ?q"
    unfolding toggle_requests_mtls.simps toggle_health_mtls_free [OF Suc.prems]
    by (simp only: option.case prod.case)
  with run have "toggle_requests_mtls (Suc n) p = Some p'"
    by simp
  moreover from h have "isHealthy p' = (if even (Suc n) then isHealthy p else \<not> isHealthy p)"
    by simp
  moreover from s h have "healthServer p' '''' = Some (if isHealthy p' then SERVING else NOT_SERVING)"
    by (cases "n = 0") auto
  ultimately show ?case using mu' by simp
qed

text \<open>
  C2. From a state in which the mutex is free, \<^verbatim>\<open>isHealthy\<close> is true and the health server
  reports \<^verbatim>\<open>SERVING\<close> for the empty service name (the state that \<^verbatim>\<open>main\<close> sets up), \<open>n\<close>
  requests to \<^verbatim>\<open>/toggle-health\<close> are all answered, and after them the health server
  reports \<^verbatim>\<open>SERVING\<close> when \<open>n\<close> is even and \<^verbatim>\<open>NOT_SERVING\<close> when \<open>n\<close> is odd; \<^verbatim>\<open>isHealthy\<close> is
  true exactly when \<open>n\<close> is even.
\<close>

theorem toggle_parity:
  "\<not> mu p \<Longrightarrow> isHealthy p \<Longrightarrow> healthServer p '''' = Some SERVING \<Longrightarrow>
   \<exists>p'. toggle_requests_mtls n p = Some p'
     \<and> isHealthy p' = even n
     \<and> Check p' '''' = Inr (if even n then SERVING else NOT_SERVING)"
proof -
  assume a: "\<not> mu p" "isHealthy p" "healthServer p '''' = Some SERVING"
  from toggle_requests_mtls_parity [OF a(1), of n] obtain p' where
    run: "toggle_requests_mtls n p = Some p'"
    and h: "isHealthy p' = (if even n then isHealthy p else \<not> isHealthy p)"
    and s: "healthServer p' '''' =
          (if n = 0 then healthServer p ''''
           else Some (if isHealthy p' then SERVING else NOT_SERVING))"
    by blast
  from h a have h': "isHealthy p' = even n" by simp
  from s h' a have "healthServer p' '''' = Some (if even n then SERVING else NOT_SERVING)"
    by (cases "n = 0") auto
  then have "Check p' '''' = Inr (if even n then SERVING else NOT_SERVING)"
    by (simp add: Check_def)
  with run h' show ?thesis by blast
qed

theorem toggle_parity_witness:
  "\<exists>p'. toggle_requests_mtls 3
      \<lparr>mu = False, isHealthy = True, healthServer = [''''  \<mapsto> SERVING], timers = [], logs = []\<rparr> = Some p'
     \<and> isHealthy p' = even (3::nat)
     \<and> Check p' '''' = Inr (if even (3::nat) then SERVING else NOT_SERVING)"
  by (rule toggle_parity) simp_all

section \<open>The answer to a request to \<^verbatim>\<open>/toggle-health\<close>\<close>

lemma sublist_UNHEALTHY:
  "sublist ''UNHEALTHY'' (''Health status is now UNHEALTHY'' @ [CHR 0x0A])"
  by (simp add: sublist_Cons_right)

lemma not_sublist_UNHEALTHY:
  "\<not> sublist ''UNHEALTHY'' (''Health status is now HEALTHY'' @ [CHR 0x0A])"
  by (simp add: sublist_Cons_right)

text \<open>
  C5, as stated, fails: after the first request the health server reports \<^verbatim>\<open>NOT_SERVING\<close>
  and the body is \<^verbatim>\<open>Health status is now UNHEALTHY\<close>, which contains \<^verbatim>\<open>HEALTHY\<close>. So a body
  contains \<^verbatim>\<open>HEALTHY\<close> also when the resulting status is not \<^verbatim>\<open>SERVING\<close>.
\<close>

theorem toggle_health_mtls_body_counterexample:
  "toggle_health_mtls
     \<lparr>mu = False, isHealthy = True, healthServer = map_of [('''', SERVING)], timers = [], logs = []\<rparr>
     \<noteq> None
   \<and> fst (the (toggle_health_mtls
     \<lparr>mu = False, isHealthy = True, healthServer = map_of [('''', SERVING)], timers = [], logs = []\<rparr>))
     = ''Health status is now UNHEALTHY'' @ [CHR 0x0A]
   \<and> Check (snd (the (toggle_health_mtls
     \<lparr>mu = False, isHealthy = True, healthServer = map_of [('''', SERVING)], timers = [], logs = []\<rparr>)))
     '''' = Inr NOT_SERVING
   \<and> sublist ''HEALTHY'' (fst (the (toggle_health_mtls
     \<lparr>mu = False, isHealthy = True, healthServer = map_of [('''', SERVING)], timers = [], logs = []\<rparr>)))"
  by (simp add: toggle_health_mtls_def Let_def SetServingStatus_def log_Println_def Check_def
      sublist_Cons_right)

text \<open>
  C5, amended. A request to \<^verbatim>\<open>/toggle-health\<close> is answered as soon as the mutex is free:
  the handler flips \<^verbatim>\<open>isHealthy\<close>, which a health query for the empty service name then
  reflects, and releases the mutex. The body is \<^verbatim>\<open>Health status is now UNHEALTHY\<close> and a
  newline exactly when the resulting status is \<^verbatim>\<open>NOT_SERVING\<close>, and \<^verbatim>\<open>Health status is now
  HEALTHY\<close> and a newline exactly when it is \<^verbatim>\<open>SERVING\<close>; it contains \<^verbatim>\<open>UNHEALTHY\<close> exactly
  when the resulting status is \<^verbatim>\<open>NOT_SERVING\<close>. Starting with \<^verbatim>\<open>isHealthy\<close> true, the first
  request gives \<^verbatim>\<open>NOT_SERVING\<close> and the second gives \<^verbatim>\<open>SERVING\<close> again, with the body
  \<^verbatim>\<open>Health status is now HEALTHY\<close>.
\<close>

theorem toggle_health_mtls_reply:
  "\<not> mu p \<Longrightarrow>
   \<exists>body p'. toggle_health_mtls p = Some (body, p')
     \<and> \<not> mu p'
     \<and> isHealthy p' = (\<not> isHealthy p)
     \<and> Check p' '''' = Inr (if isHealthy p' then SERVING else NOT_SERVING)
     \<and> (sublist ''UNHEALTHY'' body \<longleftrightarrow> Check p' '''' = Inr NOT_SERVING)
     \<and> (body = ''Health status is now HEALTHY'' @ [CHR 0x0A] \<longleftrightarrow> Check p' '''' = Inr SERVING)
     \<and> (body = ''Health status is now UNHEALTHY'' @ [CHR 0x0A] \<longleftrightarrow> Check p' '''' = Inr NOT_SERVING)
     \<and> (isHealthy p \<longrightarrow>
          Check p' '''' = Inr NOT_SERVING
          \<and> (\<exists>p''. toggle_health_mtls p' = Some (''Health status is now HEALTHY'' @ [CHR 0x0A], p'')
                \<and> Check p'' '''' = Inr SERVING))"
proof -
  assume free: "\<not> mu p"
  let ?w = "if isHealthy p then ''UNHEALTHY'' else ''HEALTHY''"
  let ?p' = "p\<lparr>isHealthy := \<not> isHealthy p,
             healthServer := (healthServer p)('''' \<mapsto> (if isHealthy p then NOT_SERVING else SERVING)),
             logs := logs p @ [''Health status toggled to: '' @ ?w]\<rparr>"
  let ?body = "''Health status is now '' @ ?w @ [CHR 0x0A]"
  have first: "toggle_health_mtls p = Some (?body, ?p')"
    by (rule toggle_health_mtls_free [OF free])
  have free': "\<not> mu ?p'" using free by simp
  have flip: "isHealthy ?p' = (\<not> isHealthy p)" by simp
  have chk: "Check ?p' '''' = Inr (if isHealthy ?p' then SERVING else NOT_SERVING)"
    by (simp add: Check_def)
  have un: "sublist ''UNHEALTHY'' ?body \<longleftrightarrow> Check ?p' '''' = Inr NOT_SERVING"
    using sublist_UNHEALTHY not_sublist_UNHEALTHY by (simp add: Check_def)
  have h: "?body = ''Health status is now HEALTHY'' @ [CHR 0x0A] \<longleftrightarrow> Check ?p' '''' = Inr SERVING"
    by (simp add: Check_def)
  have u: "?body = ''Health status is now UNHEALTHY'' @ [CHR 0x0A] \<longleftrightarrow> Check ?p' '''' = Inr NOT_SERVING"
    by (simp add: Check_def)
  have twice: "isHealthy p \<longrightarrow>
          Check ?p' '''' = Inr NOT_SERVING
          \<and> (\<exists>p''. toggle_health_mtls ?p' = Some (''Health status is now HEALTHY'' @ [CHR 0x0A], p'')
                \<and> Check p'' '''' = Inr SERVING)"
  proof
    assume healthy: "isHealthy p"
    let ?p2 = "?p'\<lparr>isHealthy := True, healthServer := (healthServer ?p')('''' \<mapsto> SERVING),
          logs := logs ?p' @ [''Health status toggled to: HEALTHY'']\<rparr>"
    have "toggle_health_mtls ?p' = Some (''Health status is now HEALTHY'' @ [CHR 0x0A], ?p2)"
      using toggle_health_mtls_free [OF free'] healthy by simp
    moreover have "Check ?p2 '''' = Inr SERVING"
      by (simp add: Check_def)
    moreover have "Check ?p' '''' = Inr NOT_SERVING"
      using healthy by (simp add: Check_def)
    ultimately show "Check ?p' '''' = Inr NOT_SERVING
          \<and> (\<exists>p''. toggle_health_mtls ?p' = Some (''Health status is now HEALTHY'' @ [CHR 0x0A], p'')
                \<and> Check p'' '''' = Inr SERVING)"
      by blast
  qed
  from first free' flip chk un h u twice show ?thesis
    by (intro exI [of _ ?body] exI [of _ ?p'] conjI)
qed

theorem toggle_health_mtls_reply_witness:
  "\<exists>body p'. toggle_health_mtls
        \<lparr>mu = False, isHealthy = True, healthServer = [''''  \<mapsto> SERVING], timers = [], logs = []\<rparr>
       = Some (body, p')
     \<and> Check p' '''' = Inr NOT_SERVING
     \<and> sublist ''UNHEALTHY'' body
     \<and> (\<exists>p''. toggle_health_mtls p' = Some (''Health status is now HEALTHY'' @ [CHR 0x0A], p'')
                \<and> Check p'' '''' = Inr SERVING)"
proof -
  let ?p = "\<lparr>mu = False, isHealthy = True, healthServer = [''''  \<mapsto> SERVING], timers = [], logs = []\<rparr>"
  have free: "\<not> mu ?p" by simp
  have healthy: "isHealthy ?p" by simp
  from toggle_health_mtls_reply [OF free] healthy show ?thesis
    by blast
qed

section \<open>Startup\<close>

lemma main_mtls_checked_failures_fatal:
  "LoadX509KeyPair env = Inl err \<or> ReadFile env = Inl err \<or> Listen env = Inl err
     \<or> Serve env = Some err \<or> ListenAndServe env = Some err \<Longrightarrow>
   \<exists>msg. main_mtls env = Fatal msg"
  by (auto simp: main_mtls_def Let_def split: sum.splits option.splits)

text \<open>
  C8. When \<^verbatim>\<open>main\<close> has started both servers, and so before any request to
  \<^verbatim>\<open>/toggle-health\<close> is answered, the health server reports \<^verbatim>\<open>SERVING\<close> for the empty
  service name, whatever the status map of the fresh health server was; \<^verbatim>\<open>isHealthy\<close> is
  true and the mutex is free.
\<close>

theorem main_mtls_initial_health:
  "main_mtls env = Serving cfg p \<Longrightarrow>
     Check p '''' = Inr SERVING \<and> isHealthy p \<and> \<not> mu p"
  by (auto simp: main_mtls_def Let_def Check_def SetServingStatus_def log_Println_def
      split: sum.splits option.splits)

theorem main_mtls_initial_health_witness:
  "\<exists>cfg p. main_mtls
      \<lparr>LoadX509KeyPair = Inr ''server certificate'', ReadFile = Inr ''ca pem'',
       pem_certificates = (\<lambda>data. [''ca certificate'']), Listen = Inr ''[::]:50051'',
       NewServer = Map.empty, Serve = None, ListenAndServe = None\<rparr> = Serving cfg p
     \<and> Check p '''' = Inr SERVING \<and> isHealthy p \<and> \<not> mu p"
proof -
  let ?env = "\<lparr>LoadX509KeyPair = Inr ''server certificate'', ReadFile = Inr ''ca pem'',
       pem_certificates = (\<lambda>data. [''ca certificate'']), Listen = Inr ''[::]:50051'',
       NewServer = Map.empty, Serve = None, ListenAndServe = None\<rparr>"
  obtain cfg p where up: "main_mtls ?env = Serving cfg p"
    by (simp add: main_mtls_def Let_def)
  from main_mtls_initial_health [OF up] up show ?thesis
    by blast
qed

text \<open>
  C7. The failures that \<^verbatim>\<open>main\<close> checks end the process, as the lemma
  \<open>main_mtls_checked_failures_fatal\<close> shows. But line 71 drops the result of
  \<^verbatim>\<open>AppendCertsFromPEM\<close>: with a file \<^verbatim>\<open>certs/ca.crt\<close> that can be read and holds no
  certificate, the call reports that it found none, and \<^verbatim>\<open>main\<close> goes on to serve, with an
  empty pool of client authorities and a configuration that requires a verified client
  certificate.
\<close>

theorem main_mtls_unparsed_ca_keeps_serving:
  "snd (AppendCertsFromPEM (\<lambda>data. []) [] ''not a certificate'') = False
   \<and> main_mtls
      \<lparr>LoadX509KeyPair = Inr ''server certificate'', ReadFile = Inr ''not a certificate'',
       pem_certificates = (\<lambda>data. []), Listen = Inr ''[::]:50051'',
       NewServer = Map.empty, Serve = None, ListenAndServe = None\<rparr>
     = Serving
        \<lparr>Certificates = [''server certificate''], ClientCAs = [],
         ClientAuth = RequireAndVerifyClientCert\<rparr>
        \<lparr>mu = False, isHealthy = True, healthServer = [''''  \<mapsto> SERVING], timers = [],
         logs = [''gRPC server with mTLS listening at [::]:50051'',
                 ''Health toggle server listening at :8081'']\<rparr>"
  by (simp add: main_mtls_def Let_def AppendCertsFromPEM_def SetServingStatus_def log_Println_def)

end
